theory Spec2Isabelle
  imports Main "HOL-Library.Word"
begin

unbundle bit_operations_syntax

section \<open>Configuration\<close>

text \<open>
  The allocator of \<^verbatim>\<open>src/unnamed/part_001\<close>: a buddy allocator over page descriptors
  (\<^verbatim>\<open>struct page\<close>, one per page frame) beneath a slab allocator, behind \<^verbatim>\<open>kmalloc\<close> and
  \<^verbatim>\<open>kfree\<close>. Page frame numbers, orders and addresses are natural numbers: an address is
  the numeric value of the C pointer, \<open>0\<close> is \<^verbatim>\<open>NULL\<close>. A pointer to a descriptor
  (\<^verbatim>\<open>struct page *\<close>) is always \<^verbatim>\<open>&MEM_MAP[pfn]\<close> or \<^verbatim>\<open>NULL\<close> and is modelled as
  \<open>Some pfn\<close> or \<open>None\<close>; a pointer to a cache is \<^verbatim>\<open>&slab_caches[i]\<close>, modelled by the
  index \<open>i\<close>.
\<close>

definition MEM_SIZE :: nat where
  "MEM_SIZE = 128 * 1024 * 1024"

definition PAGE_SHIFT :: nat where
  "PAGE_SHIFT = 12"

definition PAGE_SIZE :: nat where
  "PAGE_SIZE = push_bit PAGE_SHIFT 1"

definition MAX_ORDER :: nat where
  "MAX_ORDER = 16"

definition PG_free :: "32 word" where
  "PG_free = 0x01"

definition PG_buddy :: "32 word" where
  "PG_buddy = 0x02"

definition PG_slab :: "32 word" where
  "PG_slab = 0x04"

definition SLAB_INDEX_COUNT :: nat where
  "SLAB_INDEX_COUNT = 7"

definition slab_sizes :: "nat list" where
  "slab_sizes = [32, 64, 128, 256, 512, 1024, 2048]"

section \<open>Data structures\<close>

text \<open>
  \<^verbatim>\<open>struct page\<close>. The members of its anonymous union (\<^verbatim>\<open>order\<close> for the buddy system;
  \<^verbatim>\<open>slab_cache\<close>, \<^verbatim>\<open>freelist\<close>, \<^verbatim>\<open>active_objects\<close> for the slab system) are kept as
  separate fields. Every order the program stores is a non-negative \<^verbatim>\<open>int\<close>, so
  \<open>order\<close> is a natural number.
\<close>

record page =
  flags :: "32 word"
  "next" :: "nat option"
  order :: nat
  slab_cache :: "nat option"
  freelist :: nat
  active_objects :: int

record kmem_cache =
  obj_size :: nat
  partial :: "nat option"

text \<open>What the program prints, in the order of the \<^verbatim>\<open>printf\<close> calls of the source.\<close>

datatype message =
    Buddy_Init nat nat
  | Slab_Init
  | Null_freelist
  | Invalid_address nat
  | Double_free nat "32 word"

text \<open>
  The global variables, the simulated physical memory (one byte per address) and the
  console.
\<close>

record state =
  PHYS_MEM_START :: nat
  MEM_MAP :: "nat \<Rightarrow> page"
  buddy_free_area :: "nat \<Rightarrow> nat option"
  slab_caches :: "nat \<Rightarrow> kmem_cache"
  memory :: "nat \<Rightarrow> 8 word"
  console :: "message list"

definition printf :: "message \<Rightarrow> state \<Rightarrow> state" where
  "printf m s = s\<lparr>console := console s @ [m]\<rparr>"

definition page_upd :: "nat \<Rightarrow> (page \<Rightarrow> page) \<Rightarrow> state \<Rightarrow> state" where
  "page_upd pfn f s = s\<lparr>MEM_MAP := (MEM_MAP s)(pfn := f (MEM_MAP s pfn))\<rparr>"

definition cache_upd :: "nat \<Rightarrow> (kmem_cache \<Rightarrow> kmem_cache) \<Rightarrow> state \<Rightarrow> state" where
  "cache_upd c f s = s\<lparr>slab_caches := (slab_caches s)(c := f (slab_caches s c))\<rparr>"

definition area_upd :: "nat \<Rightarrow> nat option \<Rightarrow> state \<Rightarrow> state" where
  "area_upd k v s = s\<lparr>buddy_free_area := (buddy_free_area s)(k := v)\<rparr>"

section \<open>Pointers stored in the arena\<close>

text \<open>
  \<^verbatim>\<open>*(void **)obj = p\<close> writes the eight bytes of a pointer, least significant byte
  first; \<^verbatim>\<open>memset(obj, 0, 8)\<close> clears the same eight bytes.
\<close>

definition store_ptr :: "(nat \<Rightarrow> 8 word) \<Rightarrow> nat \<Rightarrow> nat \<Rightarrow> (nat \<Rightarrow> 8 word)" where
  "store_ptr m a v = (\<lambda>x. if a \<le> x \<and> x < a + 8 then of_nat (v div 256 ^ (x - a)) else m x)"

definition load_ptr :: "(nat \<Rightarrow> 8 word) \<Rightarrow> nat \<Rightarrow> nat" where
  "load_ptr m a = sum_list (map (\<lambda>i. unat (m (a + i)) * 256 ^ i) [0..<8])"

definition memset0 :: "(nat \<Rightarrow> 8 word) \<Rightarrow> nat \<Rightarrow> nat \<Rightarrow> (nat \<Rightarrow> 8 word)" where
  "memset0 m a n = (\<lambda>x. if a \<le> x \<and> x < a + n then 0 else m x)"

section \<open>Address translation\<close>

definition virt_to_page :: "nat \<Rightarrow> state \<Rightarrow> nat option" where
  "virt_to_page addr s =
     (if addr < PHYS_MEM_START s \<or> addr \<ge> PHYS_MEM_START s + MEM_SIZE then None
      else Some (drop_bit PAGE_SHIFT (addr - PHYS_MEM_START s)))"

definition page_address :: "nat \<Rightarrow> state \<Rightarrow> nat" where
  "page_address pfn s = PHYS_MEM_START s + push_bit PAGE_SHIFT pfn"

section \<open>Intrusive lists\<close>

text \<open>
  The free lists of the buddy system and the partial lists of the caches are linked through
  the \<^verbatim>\<open>next\<close> member of the descriptors. A \<^verbatim>\<open>struct page **\<close> points at the head of a
  buddy list, at the head of a partial list, or at the \<^verbatim>\<open>next\<close> member of a descriptor.
\<close>

datatype slot = Area nat | Partial nat | Next nat

fun get_slot :: "state \<Rightarrow> slot \<Rightarrow> nat option" where
  "get_slot s (Area k) = buddy_free_area s k"
| "get_slot s (Partial c) = partial (slab_caches s c)"
| "get_slot s (Next p) = next (MEM_MAP s p)"

fun set_slot :: "slot \<Rightarrow> nat option \<Rightarrow> state \<Rightarrow> state" where
  "set_slot (Area k) v s = area_upd k v s"
| "set_slot (Partial c) v s = cache_upd c (\<lambda>ch. ch\<lparr>partial := v\<rparr>) s"
| "set_slot (Next p) v s = page_upd p (\<lambda>pg. pg\<lparr>next := v\<rparr>) s"

text \<open>
  \<^verbatim>\<open>while (*prev && *prev != target) prev = &(*prev)->next;\<close>
  The loop follows the \<^verbatim>\<open>next\<close> members and does not return on a cyclic list that does
  not hold the target: \<open>None\<close> is "no result".
\<close>

partial_function (option) find_prev :: "state \<Rightarrow> nat \<Rightarrow> slot \<Rightarrow> slot option" where
  "find_prev s target prev =
     (case get_slot s prev of
        None \<Rightarrow> Some prev
      | Some q \<Rightarrow> if q = target then Some prev else find_prev s target (Next q))"

declare find_prev.simps [code]

text \<open>
  The loop above from the slot \<open>head\<close>, followed by
  \<^verbatim>\<open>if (*prev) *prev = target->next;\<close>
\<close>

definition unlink :: "slot \<Rightarrow> nat \<Rightarrow> state \<Rightarrow> state option" where
  "unlink head target s =
     (case find_prev s target head of
        None \<Rightarrow> None
      | Some prev \<Rightarrow>
          Some (if get_slot s prev \<noteq> None then set_slot prev (next (MEM_MAP s target)) s else s))"

section \<open>Buddy system\<close>

definition buddy_init :: "state \<Rightarrow> state" where
  "buddy_init s =
     (let s1 = s\<lparr>buddy_free_area := (\<lambda>i. if i < MAX_ORDER then None else buddy_free_area s i)\<rparr>;
          total_pages = MEM_SIZE div PAGE_SIZE;
          s2 = page_upd 0 (\<lambda>pg. pg\<lparr>flags := PG_free, order := MAX_ORDER - 1, next := None\<rparr>) s1;
          s3 = area_upd (MAX_ORDER - 1) (Some 0) s2
      in printf (Buddy_Init total_pages (MEM_SIZE div 1024 div 1024)) s3)"

text \<open>
  The inner loop of \<^verbatim>\<open>alloc_pages\<close>: \<^verbatim>\<open>while (cur_order > order)\<close>, splitting the block
  headed by \<open>pfn\<close>.
\<close>

function split_block :: "nat \<Rightarrow> nat \<Rightarrow> nat \<Rightarrow> state \<Rightarrow> state" where
  "split_block pfn ord cur_order s =
     (if cur_order > ord then
        (let cur = cur_order - 1;
             buddy_pfn = pfn + push_bit cur 1;
             s1 = page_upd buddy_pfn (\<lambda>pg. pg\<lparr>flags := PG_free, order := cur\<rparr>) s;
             s2 = page_upd buddy_pfn (\<lambda>pg. pg\<lparr>next := buddy_free_area s1 cur\<rparr>) s1;
             s3 = area_upd cur (Some buddy_pfn) s2
         in split_block pfn ord cur s3)
      else s)"
  by pat_completeness auto
termination
  by (relation "measure (\<lambda>(pfn, ord, cur_order, s). cur_order)") auto

declare split_block.simps [simp del]

text \<open>The outer loop of \<^verbatim>\<open>alloc_pages\<close>: \<^verbatim>\<open>while (cur_order < MAX_ORDER)\<close>.\<close>

function alloc_scan :: "nat \<Rightarrow> nat \<Rightarrow> state \<Rightarrow> nat option \<times> state" where
  "alloc_scan ord cur_order s =
     (if cur_order < MAX_ORDER then
        (case buddy_free_area s cur_order of
           Some pfn \<Rightarrow>
             (let s1 = area_upd cur_order (next (MEM_MAP s pfn)) s;
                  s2 = split_block pfn ord cur_order s1;
                  s3 = page_upd pfn (\<lambda>pg. pg\<lparr>flags := PG_buddy, order := ord, next := None\<rparr>) s2
              in (Some pfn, s3))
         | None \<Rightarrow> alloc_scan ord (cur_order + 1) s)
      else (None, s))"
  by pat_completeness auto
termination
  by (relation "measure (\<lambda>(ord, cur_order, s). MAX_ORDER - cur_order)") auto

declare alloc_scan.simps [simp del]

definition alloc_pages :: "nat \<Rightarrow> state \<Rightarrow> nat option \<times> state" where
  "alloc_pages ord s = alloc_scan ord ord s"

text \<open>
  The loop of \<^verbatim>\<open>__free_pages\<close>: \<^verbatim>\<open>while (order < MAX_ORDER - 1)\<close>, with its
  \<^verbatim>\<open>break\<close>. It returns the final page frame number, the final order and the state.
\<close>

function free_loop :: "nat \<Rightarrow> nat \<Rightarrow> state \<Rightarrow> (nat \<times> nat \<times> state) option" where
  "free_loop pfn ord s =
     (if ord < MAX_ORDER - 1 then
        (let buddy_pfn = pfn XOR push_bit ord 1;
             buddy = MEM_MAP s buddy_pfn
         in if \<not> (flags buddy AND PG_free \<noteq> 0) \<or> order buddy \<noteq> ord
            then Some (pfn, ord, s)
            else (case unlink (Area ord) buddy_pfn s of
                    None \<Rightarrow> None
                  | Some s1 \<Rightarrow> free_loop (pfn AND buddy_pfn) (ord + 1) s1))
      else Some (pfn, ord, s))"
  by pat_completeness auto
termination
  by (relation "measure (\<lambda>(pfn, ord, s). MAX_ORDER - 1 - ord)") auto

declare free_loop.simps [simp del]

text \<open>\<^verbatim>\<open>__free_pages\<close> (an identifier cannot start with an underscore here).\<close>

definition free_pages :: "nat \<Rightarrow> nat \<Rightarrow> state \<Rightarrow> state option" where
  "free_pages pfn ord s =
     (case free_loop pfn ord s of
        None \<Rightarrow> None
      | Some (pfn1, order1, s1) \<Rightarrow>
          (let s2 = page_upd pfn1 (\<lambda>pg. pg\<lparr>flags := PG_free, order := order1\<rparr>) s1;
               s3 = page_upd pfn1 (\<lambda>pg. pg\<lparr>next := buddy_free_area s2 order1\<rparr>) s2
           in Some (area_upd order1 (Some pfn1) s3)))"

section \<open>Slab allocator\<close>

text \<open>
  \<open>None\<close> as the result of an operation stands for "no defined result": a loop of the
  source does not terminate, or the C program divides by zero, dereferences \<^verbatim>\<open>NULL\<close> or
  shifts by the width of the type.
\<close>

definition slab_init :: "state \<Rightarrow> state" where
  "slab_init s =
     printf Slab_Init
       (s\<lparr>slab_caches := (\<lambda>i. if i < SLAB_INDEX_COUNT
                                then \<lparr>obj_size = slab_sizes ! i, partial = None\<rparr>
                                else slab_caches s i)\<rparr>)"

text \<open>
  The loop of \<^verbatim>\<open>cache_grow\<close>, \<^verbatim>\<open>for (int i = count - 1; i >= 0; i--)\<close>; the third
  argument counts the iterations that remain, \<open>i + 1\<close>. It returns \<^verbatim>\<open>prev_obj_ptr\<close>
  and the memory. The product \<^verbatim>\<open>i * cache->obj_size\<close> stays below \<^verbatim>\<open>PAGE_SIZE\<close>.
\<close>

primrec build_freelist :: "nat \<Rightarrow> nat \<Rightarrow> nat \<Rightarrow> nat \<Rightarrow> (nat \<Rightarrow> 8 word) \<Rightarrow> nat \<times> (nat \<Rightarrow> 8 word)" where
  "build_freelist addr sz 0 prev_obj_ptr m = (prev_obj_ptr, m)"
| "build_freelist addr sz (Suc i) prev_obj_ptr m =
     (let obj = addr + i * sz
      in build_freelist addr sz i obj (store_ptr m obj prev_obj_ptr))"

definition cache_grow :: "nat \<Rightarrow> state \<Rightarrow> (bool \<times> state) option" where
  "cache_grow cache s =
     (case alloc_pages 0 s of
        (None, s1) \<Rightarrow> Some (False, s1)
      | (Some pfn, s1) \<Rightarrow>
          (let s2 = page_upd pfn (\<lambda>pg. pg\<lparr>flags := PG_slab, slab_cache := Some cache,
                                          active_objects := 0\<rparr>) s1;
               addr = page_address pfn s2;
               sz = obj_size (slab_caches s2 cache)
           in if sz = 0 then None
              else
                (let count = PAGE_SIZE div sz;
                     (prev_obj_ptr, m) = build_freelist addr sz count 0 (memory s2);
                     s3 = s2\<lparr>memory := m\<rparr>;
                     s4 = page_upd pfn (\<lambda>pg. pg\<lparr>freelist := prev_obj_ptr\<rparr>) s3;
                     s5 = page_upd pfn (\<lambda>pg. pg\<lparr>next := partial (slab_caches s4 cache)\<rparr>) s4;
                     s6 = cache_upd cache (\<lambda>ch. ch\<lparr>partial := Some pfn\<rparr>) s5
                 in Some (True, s6))))"

text \<open>
  The part of \<^verbatim>\<open>kmem_cache_alloc\<close> after the cache has a partial page: from
  \<^verbatim>\<open>struct page *page = cache->partial;\<close> to the end.
\<close>

definition alloc_from_partial :: "nat \<Rightarrow> state \<Rightarrow> (nat \<times> state) option" where
  "alloc_from_partial cache s =
     (case partial (slab_caches s cache) of
        None \<Rightarrow> None
      | Some pfn \<Rightarrow>
          if freelist (MEM_MAP s pfn) = 0 then Some (0, printf Null_freelist s)
          else
            (let obj = freelist (MEM_MAP s pfn);
                 s1 = page_upd pfn (\<lambda>pg. pg\<lparr>freelist := load_ptr (memory s) obj\<rparr>) s;
                 s2 = page_upd pfn (\<lambda>pg. pg\<lparr>active_objects := active_objects pg + 1\<rparr>) s1;
                 s3 = (if freelist (MEM_MAP s2 pfn) = 0
                       then page_upd pfn (\<lambda>pg. pg\<lparr>next := None\<rparr>)
                              (cache_upd cache (\<lambda>ch. ch\<lparr>partial := next (MEM_MAP s2 pfn)\<rparr>) s2)
                       else s2);
                 s4 = s3\<lparr>memory := memset0 (memory s3) obj 8\<rparr>
             in Some (obj, s4)))"

definition kmem_cache_alloc :: "nat \<Rightarrow> state \<Rightarrow> (nat \<times> state) option" where
  "kmem_cache_alloc cache s =
     (if partial (slab_caches s cache) = None then
        (case cache_grow cache s of
           None \<Rightarrow> None
         | Some (False, s1) \<Rightarrow> Some (0, s1)
         | Some (True, s1) \<Rightarrow> alloc_from_partial cache s1)
      else alloc_from_partial cache s)"

text \<open>
  The last block of \<^verbatim>\<open>kmem_cache_free\<close>, \<^verbatim>\<open>if (page->active_objects == 0)\<close>: the page
  leaves the partial list and goes back to the buddy system.
\<close>

definition release_slab :: "nat \<Rightarrow> nat \<Rightarrow> state \<Rightarrow> state option" where
  "release_slab cache pfn s =
     (case (if partial (slab_caches s cache) = Some pfn
            then Some (cache_upd cache (\<lambda>ch. ch\<lparr>partial := next (MEM_MAP s pfn)\<rparr>) s)
            else unlink (Partial cache) pfn s) of
        None \<Rightarrow> None
      | Some s1 \<Rightarrow> free_pages pfn 0 (page_upd pfn (\<lambda>pg. pg\<lparr>flags := PG_buddy\<rparr>) s1))"

definition kmem_cache_free :: "nat \<Rightarrow> state \<Rightarrow> state option" where
  "kmem_cache_free obj s =
     (case virt_to_page obj s of
        None \<Rightarrow> Some s
      | Some pfn \<Rightarrow>
          if \<not> (flags (MEM_MAP s pfn) AND PG_slab \<noteq> 0) then Some s
          else
            (case slab_cache (MEM_MAP s pfn) of
               None \<Rightarrow> None
             | Some cache \<Rightarrow>
                 (let s1 = s\<lparr>memory := store_ptr (memory s) obj (freelist (MEM_MAP s pfn))\<rparr>;
                      s2 = page_upd pfn (\<lambda>pg. pg\<lparr>freelist := obj\<rparr>) s1;
                      s3 = page_upd pfn (\<lambda>pg. pg\<lparr>active_objects := active_objects pg - 1\<rparr>) s2;
                      sz = obj_size (slab_caches s3 cache)
                  in if sz = 0 then None
                     else
                       (let max_objs = int (PAGE_SIZE div sz);
                            s4 = (if active_objects (MEM_MAP s3 pfn) = max_objs - 1
                                  then cache_upd cache (\<lambda>ch. ch\<lparr>partial := Some pfn\<rparr>)
                                         (page_upd pfn (\<lambda>pg. pg\<lparr>next := partial (slab_caches s3 cache)\<rparr>) s3)
                                  else s3)
                        in if active_objects (MEM_MAP s4 pfn) = 0
                           then release_slab cache pfn s4
                           else Some s4))))"

section \<open>The wrapper\<close>

definition zero_page :: page where
  "zero_page = \<lparr>flags = 0, next = None, order = 0, slab_cache = None, freelist = 0,
                 active_objects = 0\<rparr>"

text \<open>
  \<^verbatim>\<open>kmalloc_init\<close>, given what its two calls of \<^verbatim>\<open>malloc\<close> return: the address of the
  arena (\<open>0\<close> when the call fails), whether the descriptor table could be allocated, and the
  bytes the fresh arena holds. The program exits when either call fails.
\<close>

definition kmalloc_init :: "nat \<Rightarrow> bool \<Rightarrow> (nat \<Rightarrow> 8 word) \<Rightarrow> state option" where
  "kmalloc_init base map_ok m =
     (if base = 0 then None
      else if \<not> map_ok then None
      else Some (slab_init (buddy_init
             \<lparr>PHYS_MEM_START = base, MEM_MAP = (\<lambda>pfn. zero_page),
              buddy_free_area = (\<lambda>i. None),
              slab_caches = (\<lambda>i. \<lparr>obj_size = 0, partial = None\<rparr>),
              memory = m, console = []\<rparr>)))"

text \<open>
  \<^verbatim>\<open>while ((PAGE_SIZE << order) < size) order++;\<close> with \<^verbatim>\<open>size_t\<close> and
  \<^verbatim>\<open>unsigned long\<close> of 64 bits: the shifted value wraps around, and a shift by 64 or more
  has no defined result.
\<close>

function kmalloc_order :: "64 word \<Rightarrow> nat \<Rightarrow> nat option" where
  "kmalloc_order sz ord =
     (if ord \<ge> 64 then None
      else if push_bit ord (of_nat PAGE_SIZE :: 64 word) < sz then kmalloc_order sz (ord + 1)
      else Some ord)"
  by pat_completeness auto
termination
  by (relation "measure (\<lambda>(sz, ord). 64 - ord)") auto

declare kmalloc_order.simps [simp del]

definition kmalloc :: "64 word \<Rightarrow> state \<Rightarrow> (nat \<times> state) option" where
  "kmalloc sz s =
     (case find (\<lambda>i. unat sz \<le> slab_sizes ! i) [0..<SLAB_INDEX_COUNT] of
        Some i \<Rightarrow> kmem_cache_alloc i s
      | None \<Rightarrow>
          (case kmalloc_order sz 0 of
             None \<Rightarrow> None
           | Some ord \<Rightarrow>
               (case alloc_pages ord s of
                  (None, s1) \<Rightarrow> Some (0, s1)
                | (Some pfn, s1) \<Rightarrow> Some (page_address pfn s1, s1))))"

definition kfree :: "nat \<Rightarrow> state \<Rightarrow> state option" where
  "kfree ptr s =
     (if ptr = 0 then Some s
      else
        (case virt_to_page ptr s of
           None \<Rightarrow> Some (printf (Invalid_address ptr) s)
         | Some pfn \<Rightarrow>
             if flags (MEM_MAP s pfn) AND PG_slab \<noteq> 0 then kmem_cache_free ptr s
             else if flags (MEM_MAP s pfn) AND PG_buddy \<noteq> 0
               then free_pages pfn (order (MEM_MAP s pfn)) s
             else Some (printf (Double_free ptr (flags (MEM_MAP s pfn))) s)))"

section \<open>Runs of the allocator\<close>

text \<open>
  The calls a client can make after \<^verbatim>\<open>kmalloc_init\<close>. A run returns what each call
  returned (\<open>0\<close> for the \<^verbatim>\<open>void\<close> function \<^verbatim>\<open>kfree\<close>) and the final state.
\<close>

datatype op = Kmalloc "64 word" | Kfree nat

fun step :: "op \<Rightarrow> state \<Rightarrow> (nat \<times> state) option" where
  "step (Kmalloc sz) s = kmalloc sz s"
| "step (Kfree ptr) s = map_option (Pair 0) (kfree ptr s)"

fun run :: "op list \<Rightarrow> state \<Rightarrow> (nat list \<times> state) option" where
  "run [] s = Some ([], s)"
| "run (x # xs) s =
     (case step x s of
        None \<Rightarrow> None
      | Some (r, s1) \<Rightarrow>
          (case run xs s1 of None \<Rightarrow> None | Some (rs, s2) \<Rightarrow> Some (r # rs, s2)))"

definition reachable :: "state \<Rightarrow> bool" where
  "reachable s \<longleftrightarrow>
     (\<exists>base m ops rs s0. kmalloc_init base True m = Some s0 \<and> run ops s0 = Some (rs, s))"

section \<open>Freeing, as the specification words it\<close>





section \<open>Free lists as lists\<close>










section \<open>A concrete start\<close>

text \<open>
  The state after \<^verbatim>\<open>kmalloc_init\<close> when the arena lies at address \<open>4096\<close> and holds zero
  bytes; the concrete runs below start from it.
\<close>

definition boot :: state where
  "boot = the (kmalloc_init 4096 True (\<lambda>a. 0))"

text \<open>
  After \<^verbatim>\<open>kmalloc(64 << 20)\<close>, a buddy allocation of order 14, and after
  \<^verbatim>\<open>kmalloc(2048)\<close>, a slab allocation.
\<close>

definition boot_large :: state where
  "boot_large = snd (the (kmalloc 67108864 boot))"

definition boot_slab1 :: state where
  "boot_slab1 = snd (the (kmalloc 2048 boot))"

text \<open>
  After a second \<^verbatim>\<open>kmalloc(2048)\<close>, which fills the slab page; after two calls of
  \<^verbatim>\<open>kmalloc(1024)\<close>, which leave a slab page half full; after \<^verbatim>\<open>kmalloc(128 << 20)\<close>,
  which takes the whole arena; and after \<^verbatim>\<open>cache_grow\<close> on the cache of 2048-byte
  objects.
\<close>

definition boot_slab2 :: state where
  "boot_slab2 = snd (the (kmalloc 2048 boot_slab1))"

definition boot_two :: state where
  "boot_two = snd (the (run [Kmalloc 1024, Kmalloc 1024] boot))"

definition boot_full :: state where
  "boot_full = snd (the (kmalloc 134217728 boot))"

definition boot_grown :: state where
  "boot_grown = snd (the (cache_grow 6 boot))"

text \<open>
  A run with one double free: two blocks of 64 MiB (pages 0 and 16384) are allocated and
  freed, the second one is freed again, two blocks of 32 MiB are allocated (pages 16384 and
  24576), the first of them is freed, and a block of 64 MiB is allocated.
\<close>

definition double_free_ops :: "op list" where
  "double_free_ops =
     [Kmalloc 67108864, Kmalloc 67108864, Kfree 4096, Kfree 67112960, Kfree 67112960,
      Kmalloc 33554432, Kmalloc 33554432, Kfree 67112960, Kmalloc 67108864]"

section \<open>Properties\<close>

lemmas config_defs = MEM_SIZE_def PAGE_SHIFT_def PAGE_SIZE_def MAX_ORDER_def PG_free_def
  PG_buddy_def PG_slab_def SLAB_INDEX_COUNT_def slab_sizes_def

lemmas update_defs = printf_def page_upd_def cache_upd_def area_upd_def

lemmas boot_defs = boot_def kmalloc_init_def slab_init_def buddy_init_def zero_page_def

lemma boot_eq:
  "boot = \<lparr>PHYS_MEM_START = 4096,
           MEM_MAP = (\<lambda>pfn. zero_page)(0 := zero_page\<lparr>flags := PG_free, order := 15\<rparr>),
           buddy_free_area = (\<lambda>i. None)(15 := Some 0),
           slab_caches = (\<lambda>i. \<lparr>obj_size = (if i < 7 then slab_sizes ! i else 0), partial = None\<rparr>),
           memory = (\<lambda>a. 0),
           console = [Buddy_Init 32768 128, Slab_Init]\<rparr>"
  by (auto simp: boot_def kmalloc_init_def slab_init_def buddy_init_def zero_page_def
      config_defs update_defs Let_def fun_eq_iff)

lemma boot_init: "kmalloc_init 4096 True (\<lambda>a. 0) = Some boot"
  by (simp add: boot_def kmalloc_init_def)

lemma Suc_Suc_0: "Suc (Suc 0) = 2"
  by simp

lemmas eval_defs = kmalloc_def kmalloc_order.simps alloc_pages_def alloc_scan.simps
  split_block.simps page_address_def kfree_def virt_to_page_def free_pages_def free_loop.simps
  unlink_def find_prev.simps upt_rec Let_def zero_page_def config_defs update_defs Suc_Suc_0
  drop_bit_eq_div

lemma build_freelist_head:
  "fst (build_freelist addr sz n prev_obj_ptr m) = (if n = 0 then prev_obj_ptr else addr)"
  by (induction n arbitrary: prev_obj_ptr m) (auto simp: Let_def)

lemmas run_defs = kmalloc_def kmalloc_order.simps kmem_cache_alloc_def cache_grow_def
  alloc_from_partial_def alloc_pages_def alloc_scan.simps split_block.simps page_address_def
  upt_rec Let_def case_prod_beta build_freelist_head

subsection \<open>The wrapper: routing by size\<close>

lemma page_size_word: "(of_nat PAGE_SIZE :: 64 word) = 2 ^ 12"
  by (simp add: PAGE_SIZE_def PAGE_SHIFT_def)

lemma shifted_page_size_le: "push_bit ord (of_nat PAGE_SIZE :: 64 word) \<le> 2 ^ 63"
proof (cases "ord + 12 < 64")
  case True
  have eq: "push_bit ord (of_nat PAGE_SIZE :: 64 word) = 2 ^ (ord + 12)"
    by (simp only: page_size_word push_bit_eq_mult power_add mult.commute)
  have pos: "(0::64 word) < 2 ^ (ord + 12)"
    using True by (simp add: word_gt_0)
  have "uint ((2::64 word) ^ (ord + 12)) = 2 ^ (ord + 12)"
    using pos by (rule uint_2p)
  moreover have "uint ((2::64 word) ^ 63) = 2 ^ 63"
    by (rule uint_2p) simp
  moreover have "(2::int) ^ (ord + 12) \<le> 2 ^ 63"
    using True by (intro power_increasing) auto
  ultimately have "(2::64 word) ^ (ord + 12) \<le> 2 ^ 63"
    by (simp only: word_le_def)
  with eq show ?thesis by simp
next
  case False
  have "push_bit ord (of_nat PAGE_SIZE :: 64 word) = 2 ^ (ord + 12)"
    by (simp only: page_size_word push_bit_eq_mult power_add mult.commute)
  also have "\<dots> = 0"
    using False by simp
  finally show ?thesis by simp
qed

text \<open>
  Above \<open>2 ^ 63\<close> no shifted page size reaches the requested size: the shift wraps to \<open>0\<close>
  at order 52 and the loop runs into the shift by 64.
\<close>

lemma kmalloc_order_overflow: "2 ^ 63 < sz \<Longrightarrow> kmalloc_order sz ord = None"
proof (induction sz ord rule: kmalloc_order.induct)
  case (1 sz ord)
  have lt: "push_bit ord (of_nat PAGE_SIZE :: 64 word) < sz"
    using shifted_page_size_le [of ord] "1.prems" by simp
  show ?case
  proof (cases "ord \<ge> 64")
    case True
    then show ?thesis by (subst kmalloc_order.simps) simp
  next
    case False
    with lt "1.IH" "1.prems" show ?thesis
      by (subst kmalloc_order.simps) simp
  qed
qed

text \<open>
  C3. The claim: for every size \<open>s > 0\<close>, \<^verbatim>\<open>kmalloc(s)\<close> delegates to the smallest size
  class that fits, or goes to the buddy allocator with the order
  \<open>ceil(log2(s / page_size))\<close>, and fails when that order is \<open>MAX_ORDER\<close> or more.
  At the size \<open>2 ^ 63 + 1\<close> the call has no result at all: no size class fits, and the
  loop that computes the order never finds \<^verbatim>\<open>PAGE_SIZE << order\<close> large enough, because
  the 64-bit shift wraps around.
\<close>

theorem kmalloc_huge_no_result: "kmalloc (2 ^ 63 + 1) s = None"
proof -
  have "(2::64 word) ^ 63 < 2 ^ 63 + 1" by simp
  then have ko: "kmalloc_order (2 ^ 63 + 1) 0 = None" by (rule kmalloc_order_overflow)
  have "find (\<lambda>i. unat (2 ^ 63 + 1 :: 64 word) \<le> slab_sizes ! i) [0..<SLAB_INDEX_COUNT] = None"
    by (simp add: SLAB_INDEX_COUNT_def slab_sizes_def upt_rec)
  with ko show ?thesis unfolding kmalloc_def by (simp only: option.case)
qed


subsection \<open>The wrapper: freeing\<close>

text \<open>
  C9. \<^verbatim>\<open>kfree(ptr)\<close>: \<^verbatim>\<open>NULL\<close> changes nothing; a pointer outside the arena is reported
  and changes nothing but the console; inside the arena the descriptor of the page decides:
  a slab page takes \<^verbatim>\<open>kmem_cache_free\<close>, a buddy page takes \<^verbatim>\<open>__free_pages\<close> at its
  recorded order, and a page in any other state (such as a free page) is reported as a
  double free, again changing nothing but the console.
\<close>

theorem kfree_dispatch:
  "kfree 0 s = Some s
   \<and> (ptr \<noteq> 0 \<and> (ptr < PHYS_MEM_START s \<or> PHYS_MEM_START s + MEM_SIZE \<le> ptr)
        \<longrightarrow> kfree ptr s = Some (s\<lparr>console := console s @ [Invalid_address ptr]\<rparr>))
   \<and> (ptr \<noteq> 0 \<and> PHYS_MEM_START s \<le> ptr \<and> ptr < PHYS_MEM_START s + MEM_SIZE
        \<longrightarrow> (let pfn = (ptr - PHYS_MEM_START s) div PAGE_SIZE; pg = MEM_MAP s pfn
             in (flags pg = PG_slab \<longrightarrow> kfree ptr s = kmem_cache_free ptr s)
              \<and> (flags pg = PG_buddy \<longrightarrow> kfree ptr s = free_pages pfn (order pg) s)
              \<and> (flags pg AND PG_slab = 0 \<and> flags pg AND PG_buddy = 0
                  \<longrightarrow> kfree ptr s = Some (s\<lparr>console := console s @ [Double_free ptr (flags pg)]\<rparr>))
              \<and> (flags pg = PG_free
                  \<longrightarrow> kfree ptr s = Some (s\<lparr>console := console s @ [Double_free ptr PG_free]\<rparr>))))"
  by (auto simp: kfree_def virt_to_page_def printf_def Let_def drop_bit_eq_div PAGE_SIZE_def
      PAGE_SHIFT_def PG_slab_def PG_buddy_def PG_free_def)

lemma boot_page0: "flags (MEM_MAP boot 0) = PG_free" "PHYS_MEM_START boot = 4096"
  by (simp_all add: boot_defs config_defs update_defs Let_def)

lemma boot_large_page0:
  "flags (MEM_MAP boot_large 0) = PG_buddy" "order (MEM_MAP boot_large 0) = 14"
  "PHYS_MEM_START boot_large = 4096"
  by (simp_all add: boot_large_def boot_eq eval_defs)

lemma boot_slab1_start:
  "flags (MEM_MAP boot_slab1 0) = PG_slab" "PHYS_MEM_START boot_slab1 = 4096"
  by (simp_all add: boot_slab1_def run_defs boot_defs config_defs update_defs)

theorem kfree_dispatch_witness:
  "kfree 0 boot = Some boot
   \<and> kfree 1 boot = Some (boot\<lparr>console := console boot @ [Invalid_address 1]\<rparr>)
   \<and> flags (MEM_MAP boot 0) = PG_free
   \<and> kfree 4096 boot = Some (boot\<lparr>console := console boot @ [Double_free 4096 PG_free]\<rparr>)
   \<and> flags (MEM_MAP boot_large 0) = PG_buddy
   \<and> kfree 4096 boot_large = free_pages 0 14 boot_large
   \<and> flags (MEM_MAP boot_slab1 0) = PG_slab
   \<and> kfree 4100 boot_slab1 = kmem_cache_free 4100 boot_slab1"
  using kfree_dispatch [of boot 1] kfree_dispatch [of boot 4096]
    kfree_dispatch [of boot_large 4096] kfree_dispatch [of boot_slab1 4100]
  by (simp add: boot_page0 boot_large_page0 boot_slab1_start MEM_SIZE_def PAGE_SIZE_def
      PAGE_SHIFT_def Let_def)

subsection \<open>Buddy allocation\<close>

lemma split_block_area:
  "buddy_free_area (split_block pfn ord cur s) i =
     (if ord \<le> i \<and> i < cur then Some (pfn + 2 ^ i) else buddy_free_area s i)"
proof (induction pfn ord cur s rule: split_block.induct)
  case (1 pfn ord cur s)
  show ?case
  proof (cases "ord < cur")
    case True
    note IH = "1.IH" [OF True refl refl refl refl refl]
    show ?thesis
      apply (subst split_block.simps)
      apply (simp only: True if_True Let_def IH)
      using True apply (auto simp: update_defs push_bit_eq_mult)
      done
  next
    case False
    then show ?thesis by (subst split_block.simps) auto
  qed
qed

lemma split_block_untouched:
  "\<forall>j. ord \<le> j \<and> j < cur \<longrightarrow> q \<noteq> pfn + 2 ^ j \<Longrightarrow>
   MEM_MAP (split_block pfn ord cur s) q = MEM_MAP s q"
proof (induction pfn ord cur s rule: split_block.induct)
  case (1 pfn ord cur s)
  show ?case
  proof (cases "ord < cur")
    case True
    then have a: "q \<noteq> pfn + 2 ^ (cur - 1)" using "1.prems" by auto
    have b: "\<forall>j. ord \<le> j \<and> j < cur - 1 \<longrightarrow> q \<noteq> pfn + 2 ^ j" using "1.prems" by auto
    note IH = "1.IH" [OF True refl refl refl refl refl b]
    show ?thesis
      apply (subst split_block.simps)
      apply (simp only: True if_True Let_def IH)
      using True a apply (simp add: update_defs push_bit_eq_mult)
      done
  next
    case False
    then show ?thesis by (simp add: split_block.simps)
  qed
qed

lemma split_block_half:
  "ord \<le> j \<Longrightarrow> j < cur \<Longrightarrow>
   MEM_MAP (split_block pfn ord cur s) (pfn + 2 ^ j) =
     (MEM_MAP s (pfn + 2 ^ j))\<lparr>flags := PG_free, order := j, next := buddy_free_area s j\<rparr>"
proof (induction pfn ord cur s rule: split_block.induct)
  case (1 pfn ord cur s)
  then have lt: "ord < cur" by simp
  show ?case
  proof (cases "j = cur - 1")
    case True
    have "\<forall>i. ord \<le> i \<and> i < cur - 1 \<longrightarrow> pfn + 2 ^ j \<noteq> pfn + (2::nat) ^ i"
      using True by auto
    then have un: "\<forall>i. ord \<le> i \<and> i < cur - 1 \<longrightarrow> pfn + 2 ^ (cur - 1) \<noteq> pfn + (2::nat) ^ i"
      using True by simp
    show ?thesis unfolding True
      apply (subst split_block.simps)
      apply (simp only: lt if_True Let_def split_block_untouched [OF un])
      apply (simp add: update_defs push_bit_eq_mult)
      done
  next
    case False
    then have j: "j < cur - 1" using "1.prems" by simp
    have ne: "(2::nat) ^ j \<noteq> 2 ^ (cur - 1)" using False by simp
    note IH = "1.IH" [OF lt refl refl refl refl refl "1.prems"(1) j]
    show ?thesis
      apply (subst split_block.simps)
      apply (simp only: lt if_True Let_def IH)
      using lt ne False apply (simp add: update_defs push_bit_eq_mult)
      done
  qed
qed


lemma split_block_other:
  "PHYS_MEM_START (split_block pfn ord cur s) = PHYS_MEM_START s
   \<and> slab_caches (split_block pfn ord cur s) = slab_caches s
   \<and> memory (split_block pfn ord cur s) = memory s
   \<and> console (split_block pfn ord cur s) = console s"
proof (induction pfn ord cur s rule: split_block.induct)
  case (1 pfn ord cur s)
  show ?case
  proof (cases "ord < cur")
    case True
    note IH = "1.IH" [OF True refl refl refl refl refl]
    show ?thesis
      apply (subst (1 2 3 4) split_block.simps)
      apply (simp only: True if_True Let_def IH)
      apply (simp add: update_defs)
      done
  next
    case False
    then show ?thesis by (simp add: split_block.simps)
  qed
qed

lemma alloc_scan_skip:
  "cur \<le> k \<Longrightarrow> k \<le> MAX_ORDER \<Longrightarrow> \<forall>j. cur \<le> j \<and> j < k \<longrightarrow> buddy_free_area s j = None \<Longrightarrow>
   alloc_scan ord cur s = alloc_scan ord k s"
proof (induction "k - cur" arbitrary: cur)
  case 0
  then show ?case by simp
next
  case (Suc n)
  then have "cur < k" "buddy_free_area s cur = None" by auto
  moreover have "alloc_scan ord (cur + 1) s = alloc_scan ord k s"
    using Suc by (intro Suc.hyps(1)) auto
  ultimately show ?case using Suc.prems
    by (subst alloc_scan.simps) simp
qed

lemma alloc_scan_end: "MAX_ORDER \<le> cur \<Longrightarrow> alloc_scan ord cur s = (None, s)"
  by (subst alloc_scan.simps) simp

lemma alloc_scan_found:
  "k < MAX_ORDER \<Longrightarrow> buddy_free_area s k = Some pfn \<Longrightarrow>
   alloc_scan ord k s =
     (Some pfn, page_upd pfn (\<lambda>pg. pg\<lparr>flags := PG_buddy, order := ord, next := None\<rparr>)
        (split_block pfn ord k (area_upd k (next (MEM_MAP s pfn)) s)))"
  by (subst alloc_scan.simps) (simp add: Let_def)

lemma alloc_pages_fails_iff:
  "fst (alloc_pages ord s) = None \<longleftrightarrow> (\<forall>k. ord \<le> k \<and> k < MAX_ORDER \<longrightarrow> buddy_free_area s k = None)"
proof
  assume none: "fst (alloc_pages ord s) = None"
  show "\<forall>k. ord \<le> k \<and> k < MAX_ORDER \<longrightarrow> buddy_free_area s k = None"
  proof (rule ccontr)
    assume "\<not> ?thesis"
    then obtain k where k: "ord \<le> k \<and> k < MAX_ORDER \<and> buddy_free_area s k \<noteq> None" by auto
    define m where "m = (LEAST k. ord \<le> k \<and> k < MAX_ORDER \<and> buddy_free_area s k \<noteq> None)"
    have m: "ord \<le> m \<and> m < MAX_ORDER \<and> buddy_free_area s m \<noteq> None"
      unfolding m_def using k by (rule LeastI)
    have least: "\<forall>j. ord \<le> j \<and> j < m \<longrightarrow> buddy_free_area s j = None"
    proof (intro allI impI)
      fix j assume j: "ord \<le> j \<and> j < m"
      show "buddy_free_area s j = None"
      proof (rule ccontr)
        assume "buddy_free_area s j \<noteq> None"
        with j m have "ord \<le> j \<and> j < MAX_ORDER \<and> buddy_free_area s j \<noteq> None" by simp
        then have "m \<le> j" unfolding m_def by (rule Least_le)
        with j show False by simp
      qed
    qed
    from m obtain pfn where "buddy_free_area s m = Some pfn" by auto
    with m least have "fst (alloc_pages ord s) = Some pfn"
      by (simp add: alloc_pages_def alloc_scan_skip [of ord m] alloc_scan_found)
    with none show False by simp
  qed
next
  assume all: "\<forall>k. ord \<le> k \<and> k < MAX_ORDER \<longrightarrow> buddy_free_area s k = None"
  show "fst (alloc_pages ord s) = None"
  proof (cases "ord \<le> MAX_ORDER")
    case True
    with all have "alloc_scan ord ord s = alloc_scan ord MAX_ORDER s"
      by (intro alloc_scan_skip) auto
    then show ?thesis by (simp add: alloc_pages_def alloc_scan_end)
  next
    case False
    then show ?thesis by (simp add: alloc_pages_def alloc_scan_end)
  qed
qed

text \<open>
  C2. \<^verbatim>\<open>alloc_pages(order)\<close> takes the head of the first non-empty free list at or above
  the requested order. When that list has order \<open>k\<close> and the block starts at \<open>pfn\<close>, every
  order \<open>j\<close> from \<open>k - 1\<close> down to the requested one gets the upper half \<open>pfn + 2 ^ j\<close>,
  marked free with order \<open>j\<close>, as the new head of its (empty) list; the block at \<open>pfn\<close>
  is marked \<^verbatim>\<open>PG_buddy\<close> with the requested order; nothing else changes. The call returns
  \<^verbatim>\<open>NULL\<close>, leaving the state as it was, exactly when the lists from the requested order
  up to \<open>MAX_ORDER - 1\<close> are all empty, which includes every order from \<open>MAX_ORDER\<close> on.
\<close>

theorem alloc_pages_first_fit:
  "(fst (alloc_pages ord s) = None \<longleftrightarrow>
      (\<forall>k. ord \<le> k \<and> k < MAX_ORDER \<longrightarrow> buddy_free_area s k = None) \<or> MAX_ORDER \<le> ord)
   \<and> (fst (alloc_pages ord s) = None \<longrightarrow> snd (alloc_pages ord s) = s)
   \<and> (ord \<le> k \<and> k < MAX_ORDER \<and> buddy_free_area s k = Some pfn
        \<and> (\<forall>j. ord \<le> j \<and> j < k \<longrightarrow> buddy_free_area s j = None)
      \<longrightarrow> (\<exists>s'. alloc_pages ord s = (Some pfn, s')
            \<and> MEM_MAP s' pfn = (MEM_MAP s pfn)\<lparr>flags := PG_buddy, order := ord, next := None\<rparr>
            \<and> (\<forall>j. ord \<le> j \<and> j < k \<longrightarrow>
                   MEM_MAP s' (pfn + 2 ^ j) =
                     (MEM_MAP s (pfn + 2 ^ j))\<lparr>flags := PG_free, order := j, next := None\<rparr>
                   \<and> buddy_free_area s' j = Some (pfn + 2 ^ j))
            \<and> buddy_free_area s' k = next (MEM_MAP s pfn)
            \<and> (\<forall>i. i < ord \<or> k < i \<longrightarrow> buddy_free_area s' i = buddy_free_area s i)
            \<and> (\<forall>q. q \<noteq> pfn \<and> (\<forall>j. ord \<le> j \<and> j < k \<longrightarrow> q \<noteq> pfn + 2 ^ j)
                   \<longrightarrow> MEM_MAP s' q = MEM_MAP s q)
            \<and> slab_caches s' = slab_caches s \<and> memory s' = memory s
            \<and> console s' = console s \<and> PHYS_MEM_START s' = PHYS_MEM_START s))"
proof (intro conjI impI)
  show "fst (alloc_pages ord s) = None \<longleftrightarrow>
      (\<forall>k. ord \<le> k \<and> k < MAX_ORDER \<longrightarrow> buddy_free_area s k = None) \<or> MAX_ORDER \<le> ord"
    using alloc_pages_fails_iff [of ord s] by auto
next
  assume "fst (alloc_pages ord s) = None"
  then have all: "\<forall>k. ord \<le> k \<and> k < MAX_ORDER \<longrightarrow> buddy_free_area s k = None"
    by (simp add: alloc_pages_fails_iff)
  show "snd (alloc_pages ord s) = s"
  proof (cases "ord \<le> MAX_ORDER")
    case True
    with all have "alloc_scan ord ord s = alloc_scan ord MAX_ORDER s"
      by (intro alloc_scan_skip) auto
    then show ?thesis by (simp add: alloc_pages_def alloc_scan_end)
  next
    case False
    then show ?thesis by (simp add: alloc_pages_def alloc_scan_end)
  qed
next
  assume h: "ord \<le> k \<and> k < MAX_ORDER \<and> buddy_free_area s k = Some pfn
        \<and> (\<forall>j. ord \<le> j \<and> j < k \<longrightarrow> buddy_free_area s j = None)"
  define s1 where "s1 = area_upd k (next (MEM_MAP s pfn)) s"
  define s2 where "s2 = split_block pfn ord k s1"
  define s' where "s' = page_upd pfn (\<lambda>pg. pg\<lparr>flags := PG_buddy, order := ord, next := None\<rparr>) s2"
  have res: "alloc_pages ord s = (Some pfn, s')"
    using h by (simp add: alloc_pages_def alloc_scan_skip [of ord k] alloc_scan_found s'_def s2_def s1_def)
  have self: "\<forall>j. ord \<le> j \<and> j < k \<longrightarrow> pfn \<noteq> pfn + (2::nat) ^ j" by simp
  have p: "MEM_MAP s' pfn = (MEM_MAP s pfn)\<lparr>flags := PG_buddy, order := ord, next := None\<rparr>"
    by (simp add: s'_def page_upd_def s2_def split_block_untouched [OF self] s1_def area_upd_def)
  have halves: "\<forall>j. ord \<le> j \<and> j < k \<longrightarrow>
                   MEM_MAP s' (pfn + 2 ^ j) =
                     (MEM_MAP s (pfn + 2 ^ j))\<lparr>flags := PG_free, order := j, next := None\<rparr>
                   \<and> buddy_free_area s' j = Some (pfn + 2 ^ j)"
    using h by (simp add: s'_def page_upd_def s2_def split_block_half split_block_area s1_def area_upd_def)
  have ak: "buddy_free_area s' k = next (MEM_MAP s pfn)"
    by (simp add: s'_def page_upd_def s2_def split_block_area s1_def area_upd_def)
  have others: "\<forall>i. i < ord \<or> k < i \<longrightarrow> buddy_free_area s' i = buddy_free_area s i"
    using h by (auto simp: s'_def page_upd_def s2_def split_block_area s1_def area_upd_def)
  have pages: "\<forall>q. q \<noteq> pfn \<and> (\<forall>j. ord \<le> j \<and> j < k \<longrightarrow> q \<noteq> pfn + 2 ^ j)
                   \<longrightarrow> MEM_MAP s' q = MEM_MAP s q"
    by (simp add: s'_def page_upd_def s2_def split_block_untouched s1_def area_upd_def)
  have rest: "slab_caches s' = slab_caches s \<and> memory s' = memory s
            \<and> console s' = console s \<and> PHYS_MEM_START s' = PHYS_MEM_START s"
    by (simp add: s'_def page_upd_def s2_def split_block_other s1_def area_upd_def)
  from res p halves ak others pages rest
  show "\<exists>s'. alloc_pages ord s = (Some pfn, s')
            \<and> MEM_MAP s' pfn = (MEM_MAP s pfn)\<lparr>flags := PG_buddy, order := ord, next := None\<rparr>
            \<and> (\<forall>j. ord \<le> j \<and> j < k \<longrightarrow>
                   MEM_MAP s' (pfn + 2 ^ j) =
                     (MEM_MAP s (pfn + 2 ^ j))\<lparr>flags := PG_free, order := j, next := None\<rparr>
                   \<and> buddy_free_area s' j = Some (pfn + 2 ^ j))
            \<and> buddy_free_area s' k = next (MEM_MAP s pfn)
            \<and> (\<forall>i. i < ord \<or> k < i \<longrightarrow> buddy_free_area s' i = buddy_free_area s i)
            \<and> (\<forall>q. q \<noteq> pfn \<and> (\<forall>j. ord \<le> j \<and> j < k \<longrightarrow> q \<noteq> pfn + 2 ^ j)
                   \<longrightarrow> MEM_MAP s' q = MEM_MAP s q)
            \<and> slab_caches s' = slab_caches s \<and> memory s' = memory s
            \<and> console s' = console s \<and> PHYS_MEM_START s' = PHYS_MEM_START s"
    by blast
qed

lemma boot_free_area: "buddy_free_area boot k = (if k = 15 then Some 0 else None)"
  by (simp add: boot_defs config_defs update_defs Let_def)

theorem alloc_pages_first_fit_witness:
  "fst (alloc_pages 0 boot) = Some 0
   \<and> flags (MEM_MAP (snd (alloc_pages 0 boot)) 0) = PG_buddy
   \<and> order (MEM_MAP (snd (alloc_pages 0 boot)) 0) = 0
   \<and> buddy_free_area (snd (alloc_pages 0 boot)) 3 = Some 8
   \<and> flags (MEM_MAP (snd (alloc_pages 0 boot)) 8) = PG_free
   \<and> order (MEM_MAP (snd (alloc_pages 0 boot)) 8) = 3
   \<and> buddy_free_area (snd (alloc_pages 0 boot)) 15 = None
   \<and> alloc_pages 16 boot = (None, boot)"
proof -
  have hyp: "0 \<le> (15::nat) \<and> 15 < MAX_ORDER \<and> buddy_free_area boot 15 = Some 0
        \<and> (\<forall>j. 0 \<le> j \<and> j < 15 \<longrightarrow> buddy_free_area boot j = None)"
    by (simp add: boot_free_area MAX_ORDER_def)
  with alloc_pages_first_fit [of 0 boot 15 0] obtain s' where
    s': "alloc_pages 0 boot = (Some 0, s')"
      "MEM_MAP s' 0 = (MEM_MAP boot 0)\<lparr>flags := PG_buddy, order := 0, next := None\<rparr>"
      "\<forall>j. 0 \<le> j \<and> j < 15 \<longrightarrow>
          MEM_MAP s' (0 + 2 ^ j) = (MEM_MAP boot (0 + 2 ^ j))\<lparr>flags := PG_free, order := j, next := None\<rparr>
          \<and> buddy_free_area s' j = Some (0 + 2 ^ j)"
      "buddy_free_area s' 15 = next (MEM_MAP boot 0)"
    by blast
  from s'(3) have "0 \<le> (3::nat) \<and> (3::nat) < 15 \<longrightarrow>
          MEM_MAP s' (0 + 2 ^ 3) = (MEM_MAP boot (0 + 2 ^ 3))\<lparr>flags := PG_free, order := 3, next := None\<rparr>
          \<and> buddy_free_area s' 3 = Some (0 + 2 ^ 3)"
    by (rule spec)
  then have three: "MEM_MAP s' 8 = (MEM_MAP boot 8)\<lparr>flags := PG_free, order := 3, next := None\<rparr>
          \<and> buddy_free_area s' 3 = Some 8"
    by simp
  have nxt: "next (MEM_MAP boot 0) = None"
    by (simp add: boot_defs config_defs update_defs Let_def)
  have "MAX_ORDER \<le> 16" by (simp add: MAX_ORDER_def)
  with alloc_pages_first_fit [of 16 boot] have "fst (alloc_pages 16 boot) = None \<and> snd (alloc_pages 16 boot) = boot"
    by blast
  then have "alloc_pages 16 boot = (None, boot)" by (simp add: prod_eq_iff)
  with s'(1,2,4) three nxt show ?thesis by simp
qed

subsection \<open>Freeing a block\<close>











subsection \<open>A double free\<close>

text \<open>
  C4. The claim: in every state reachable from initialization by allocations and frees,
  every descriptor in the free list of order \<open>o\<close> is \<open>Free\<close> with recorded order \<open>o\<close>.
  The run \<open>double_free_ops\<close> ends in a state where page 16384 is the head of the free list
  of order 13 and has the recorded order 14. The second \<^verbatim>\<open>kfree\<close> of the block at page
  16384 is not reported: \<^verbatim>\<open>__free_pages\<close> marks only the head of the merged block as free,
  so the descriptor of page 16384, merged into page 0, still says \<^verbatim>\<open>PG_buddy\<close>.
\<close>

theorem double_free_breaks_free_lists:
  "\<exists>s. run double_free_ops boot =
          Some ([4096, 67112960, 0, 0, 0, 67112960, 100667392, 0, 4096], s)
      \<and> reachable s
      \<and> console s = console boot
      \<and> buddy_free_area s 13 = Some 16384
      \<and> flags (MEM_MAP s 16384) = PG_free
      \<and> order (MEM_MAP s 16384) = 14"
proof -
  have "\<exists>s. run double_free_ops boot =
          Some ([4096, 67112960, 0, 0, 0, 67112960, 100667392, 0, 4096], s)
      \<and> console s = console boot
      \<and> buddy_free_area s 13 = Some 16384
      \<and> flags (MEM_MAP s 16384) = PG_free
      \<and> order (MEM_MAP s 16384) = 14"
    by (simp add: double_free_ops_def boot_eq eval_defs)
  then obtain s where s: "run double_free_ops boot =
          Some ([4096, 67112960, 0, 0, 0, 67112960, 100667392, 0, 4096], s)"
      "console s = console boot" "buddy_free_area s 13 = Some 16384"
      "flags (MEM_MAP s 16384) = PG_free" "order (MEM_MAP s 16384) = 14"
    by blast
  from s(1) boot_init have "reachable s"
    unfolding reachable_def by blast
  with s show ?thesis by blast
qed

subsection \<open>Lists in the descriptor table\<close>



































subsection \<open>Pointers in the arena\<close>

lemma bytes_sum: "sum_list (map (\<lambda>i. (v div 256 ^ i mod 256) * 256 ^ i) [0..<k]) = v mod 256 ^ k" for v :: nat
proof (induction k)
  case 0
  then show ?case by simp
next
  case (Suc k)
  have "v mod (256 ^ k * 256) = 256 ^ k * (v div 256 ^ k mod 256) + v mod 256 ^ k"
    by (rule mod_mult2_eq)
  with Suc show ?case by (simp add: mult.commute)
qed

lemma load_ptr_cong: "(\<And>j. j < 8 \<Longrightarrow> m' (a + j) = m (a + j)) \<Longrightarrow> load_ptr m' a = load_ptr m a"
  unfolding load_ptr_def by (intro arg_cong [where f = sum_list] map_cong) auto

lemma load_store_same: "v < 2 ^ 64 \<Longrightarrow> load_ptr (store_ptr m a v) a = v"
proof -
  assume v: "v < 2 ^ 64"
  have "load_ptr (store_ptr m a v) a = sum_list (map (\<lambda>i. (v div 256 ^ i mod 256) * 256 ^ i) [0..<8])"
    unfolding load_ptr_def store_ptr_def
    by (intro arg_cong [where f = sum_list] map_cong) (auto simp: unat_of_nat)
  also have "\<dots> = v mod 256 ^ 8" by (rule bytes_sum)
  also have "\<dots> = v" using v by simp
  finally show ?thesis .
qed

lemma load_store_other: "b + 8 \<le> a \<or> a + 8 \<le> b \<Longrightarrow> load_ptr (store_ptr m a v) b = load_ptr m b"
  by (rule load_ptr_cong) (auto simp: store_ptr_def)

lemma load_memset0: "load_ptr (memset0 m a 8) a = 0"
  by (simp add: load_ptr_def memset0_def)

lemma build_freelist_outside:
  "(\<And>i. i < n \<Longrightarrow> x < addr + i * sz \<or> addr + i * sz + 8 \<le> x) \<Longrightarrow>
   snd (build_freelist addr sz n prev m) x = m x"
proof (induction n arbitrary: prev m)
  case 0
  then show ?case by simp
next
  case (Suc n)
  have "x < addr + n * sz \<or> addr + n * sz + 8 \<le> x" using Suc.prems [of n] by simp
  then have "store_ptr m (addr + n * sz) prev x = m x" by (auto simp: store_ptr_def)
  moreover have "snd (build_freelist addr sz n (addr + n * sz) (store_ptr m (addr + n * sz) prev)) x
      = store_ptr m (addr + n * sz) prev x"
    using Suc.prems by (intro Suc.IH) auto
  ultimately show ?case by (simp add: Let_def)
qed

lemma slot_disjoint:
  fixes sz :: nat
  assumes "8 \<le> sz" "i < n" "j < 8"
  shows "addr + n * sz + j < addr + i * sz \<or> addr + i * sz + 8 \<le> addr + n * sz + j"
proof -
  have "Suc i \<le> n" using assms(2) by simp
  then have "Suc i * sz \<le> n * sz" by (rule mult_le_mono1)
  then have "i * sz + sz \<le> n * sz" by simp
  with assms(1) show ?thesis by linarith
qed

lemma build_freelist_links:
  "8 \<le> sz \<Longrightarrow> addr + n * sz \<le> 2 ^ 64 \<Longrightarrow> prev < 2 ^ 64 \<Longrightarrow> i < n \<Longrightarrow>
   load_ptr (snd (build_freelist addr sz n prev m)) (addr + i * sz) =
     (if i + 1 < n then addr + (i + 1) * sz else prev)"
proof (induction n arbitrary: prev m)
  case 0
  then show ?case by simp
next
  case (Suc n)
  let ?obj = "addr + n * sz"
  let ?m = "store_ptr m ?obj prev"
  have step: "build_freelist addr sz (Suc n) prev m = build_freelist addr sz n ?obj ?m"
    by (simp add: Let_def)
  have bound: "addr + n * sz \<le> 2 ^ 64" "?obj < 2 ^ 64" using Suc.prems(1,2) by simp_all
  show ?case
  proof (cases "i = n")
    case True
    have "load_ptr (snd (build_freelist addr sz n ?obj ?m)) ?obj = load_ptr ?m ?obj"
    proof (rule load_ptr_cong)
      fix j :: nat assume j: "j < 8"
      show "snd (build_freelist addr sz n ?obj ?m) (?obj + j) = ?m (?obj + j)"
        using Suc.prems(1) j by (intro build_freelist_outside slot_disjoint)
    qed
    also have "\<dots> = prev" using Suc.prems(3) by (rule load_store_same)
    finally show ?thesis using True step by simp
  next
    case False
    then have i: "i < n" using Suc.prems(4) by simp
    from Suc.IH [OF Suc.prems(1) bound(1) bound(2) i, of ?m]
    have "load_ptr (snd (build_freelist addr sz n ?obj ?m)) (addr + i * sz) =
            (if i + 1 < n then addr + (i + 1) * sz else ?obj)" .
    moreover have "addr + (i + 1) * sz = ?obj" if "\<not> i + 1 < n"
    proof -
      from that i have "i + 1 = n" by simp
      then show ?thesis by simp
    qed
    ultimately have "load_ptr (snd (build_freelist addr sz n ?obj ?m)) (addr + i * sz) = addr + (i + 1) * sz"
      by (cases "i + 1 < n") simp_all
    then show ?thesis using i unfolding step by simp
  qed
qed


subsection \<open>Slab caches\<close>



lemma alloc_pages_none: "alloc_pages ord s = (None, s1) \<Longrightarrow> s1 = s"
proof -
  assume a: "alloc_pages ord s = (None, s1)"
  then have "fst (alloc_pages ord s) = None" by simp
  then have all: "\<forall>k. ord \<le> k \<and> k < MAX_ORDER \<longrightarrow> buddy_free_area s k = None"
    by (simp add: alloc_pages_fails_iff)
  have "alloc_pages ord s = (None, s)"
  proof (cases "ord \<le> MAX_ORDER")
    case True
    with all have "alloc_scan ord ord s = alloc_scan ord MAX_ORDER s"
      by (intro alloc_scan_skip) auto
    then show ?thesis by (simp add: alloc_pages_def alloc_scan_end)
  next
    case False
    then show ?thesis by (simp add: alloc_pages_def alloc_scan_end)
  qed
  with a show ?thesis by simp
qed



text \<open>
  The guard of the source for a partial page without a free object: the call prints a
  message and returns \<^verbatim>\<open>NULL\<close>.
\<close>

lemma kmem_cache_alloc_null_freelist:
  "partial (slab_caches s c) = Some pfn \<Longrightarrow> freelist (MEM_MAP s pfn) = 0 \<Longrightarrow>
   kmem_cache_alloc c s = Some (0, s\<lparr>console := console s @ [Null_freelist]\<rparr>)"
  by (simp add: kmem_cache_alloc_def alloc_from_partial_def printf_def)

text \<open>
  C7. \<^verbatim>\<open>kmem_cache_alloc(cache)\<close>: with an empty partial list the cache grows first, and
  a failed growth is returned as \<^verbatim>\<open>NULL\<close> with the state unchanged. With \<open>s1\<close> the state
  in which the cache has a partial page (after the growth, or the state of the call), the
  call returns the freelist head \<open>obj\<close> of the front page \<open>pfn\<close>, the freelist advances to
  the pointer stored in \<open>obj\<close>, \<^verbatim>\<open>active_objects\<close> grows by one, the page leaves the
  partial list when its freelist is exhausted, and the first eight bytes of the object
  are zero; nothing else changes.
\<close>

theorem kmem_cache_alloc_serves:
  "(partial (slab_caches s c) = None \<and> fst (alloc_pages 0 s) = None
      \<longrightarrow> kmem_cache_alloc c s = Some (0, s))
   \<and> ((partial (slab_caches s c) = None \<longrightarrow> cache_grow c s = Some (True, s1))
        \<and> (partial (slab_caches s c) \<noteq> None \<longrightarrow> s1 = s)
        \<and> partial (slab_caches s1 c) = Some pfn \<and> freelist (MEM_MAP s1 pfn) = obj \<and> obj \<noteq> 0
      \<longrightarrow> (\<exists>s'. kmem_cache_alloc c s = Some (obj, s')
            \<and> MEM_MAP s' pfn = (MEM_MAP s1 pfn)\<lparr>freelist := load_ptr (memory s1) obj,
                 active_objects := active_objects (MEM_MAP s1 pfn) + 1,
                 next := (if load_ptr (memory s1) obj = 0 then None else next (MEM_MAP s1 pfn))\<rparr>
            \<and> slab_caches s' c = (slab_caches s1 c)\<lparr>partial :=
                 (if load_ptr (memory s1) obj = 0 then next (MEM_MAP s1 pfn) else Some pfn)\<rparr>
            \<and> (\<forall>j. j < 8 \<longrightarrow> memory s' (obj + j) = 0)
            \<and> (\<forall>x. x < obj \<or> obj + 8 \<le> x \<longrightarrow> memory s' x = memory s1 x)
            \<and> (\<forall>q. q \<noteq> pfn \<longrightarrow> MEM_MAP s' q = MEM_MAP s1 q)
            \<and> (\<forall>c'. c' \<noteq> c \<longrightarrow> slab_caches s' c' = slab_caches s1 c')
            \<and> buddy_free_area s' = buddy_free_area s1 \<and> console s' = console s1
            \<and> PHYS_MEM_START s' = PHYS_MEM_START s1))"
proof (intro conjI impI)
  assume "partial (slab_caches s c) = None \<and> fst (alloc_pages 0 s) = None"
  moreover from this obtain s1 where a: "alloc_pages 0 s = (None, s1)"
    by (cases "alloc_pages 0 s") auto
  moreover from a have "s1 = s" by (rule alloc_pages_none)
  ultimately show "kmem_cache_alloc c s = Some (0, s)"
    by (simp add: kmem_cache_alloc_def cache_grow_def)
next
  assume h: "(partial (slab_caches s c) = None \<longrightarrow> cache_grow c s = Some (True, s1))
        \<and> (partial (slab_caches s c) \<noteq> None \<longrightarrow> s1 = s)
        \<and> partial (slab_caches s1 c) = Some pfn \<and> freelist (MEM_MAP s1 pfn) = obj \<and> obj \<noteq> 0"
  then have k: "kmem_cache_alloc c s = alloc_from_partial c s1"
    by (cases "partial (slab_caches s c) = None") (auto simp: kmem_cache_alloc_def)
  show "\<exists>s'. kmem_cache_alloc c s = Some (obj, s')
            \<and> MEM_MAP s' pfn = (MEM_MAP s1 pfn)\<lparr>freelist := load_ptr (memory s1) obj,
                 active_objects := active_objects (MEM_MAP s1 pfn) + 1,
                 next := (if load_ptr (memory s1) obj = 0 then None else next (MEM_MAP s1 pfn))\<rparr>
            \<and> slab_caches s' c = (slab_caches s1 c)\<lparr>partial :=
                 (if load_ptr (memory s1) obj = 0 then next (MEM_MAP s1 pfn) else Some pfn)\<rparr>
            \<and> (\<forall>j. j < 8 \<longrightarrow> memory s' (obj + j) = 0)
            \<and> (\<forall>x. x < obj \<or> obj + 8 \<le> x \<longrightarrow> memory s' x = memory s1 x)
            \<and> (\<forall>q. q \<noteq> pfn \<longrightarrow> MEM_MAP s' q = MEM_MAP s1 q)
            \<and> (\<forall>c'. c' \<noteq> c \<longrightarrow> slab_caches s' c' = slab_caches s1 c')
            \<and> buddy_free_area s' = buddy_free_area s1 \<and> console s' = console s1
            \<and> PHYS_MEM_START s' = PHYS_MEM_START s1"
    unfolding k using h
    by (cases "load_ptr (memory s1) obj = 0")
       (auto simp: alloc_from_partial_def Let_def update_defs memset0_def)
qed




subsection \<open>Concrete states\<close>

lemmas slab_eval_defs = kmem_cache_alloc_def cache_grow_def alloc_from_partial_def
  kmem_cache_free_def release_slab_def case_prod_beta build_freelist_head


lemma load_memset0_other: "b + 8 \<le> a \<or> a + 8 \<le> b \<Longrightarrow> load_ptr (memset0 m a 8) b = load_ptr m b"
  by (rule load_ptr_cong) (auto simp: memset0_def)

lemma links_2048:
  "load_ptr (snd (build_freelist 4096 2048 2 0 m)) 4096 = 6144"
  "load_ptr (snd (build_freelist 4096 2048 2 0 m)) 6144 = 0"
  using build_freelist_links [of 2048 4096 2 0 0 m] build_freelist_links [of 2048 4096 2 0 1 m]
  by simp_all

lemma links_1024:
  "load_ptr (snd (build_freelist 4096 1024 4 0 m)) 4096 = 5120"
  "load_ptr (snd (build_freelist 4096 1024 4 0 m)) 5120 = 6144"
  using build_freelist_links [of 1024 4096 4 0 0 m] build_freelist_links [of 1024 4096 4 0 1 m]
  by simp_all

lemmas mem_eval = links_2048 links_1024 load_memset0_other

lemma boot_grown_result: "cache_grow 6 boot = Some (True, boot_grown)"
  by (simp add: boot_grown_def boot_eq eval_defs slab_eval_defs)

lemma boot_grown_facts:
  "partial (slab_caches boot_grown 6) = Some 0" "freelist (MEM_MAP boot_grown 0) = 4096"
  "load_ptr (memory boot_grown) 4096 = 6144" "next (MEM_MAP boot_grown 0) = None"
  "active_objects (MEM_MAP boot_grown 0) = 0"
  by (simp_all add: boot_grown_def boot_eq eval_defs slab_eval_defs mem_eval)




lemma boot_slab1_page0:
  "MEM_MAP boot_slab1 0 = \<lparr>flags = PG_slab, next = None, order = 0, slab_cache = Some 6,
      freelist = 6144, active_objects = 1\<rparr>"
  "slab_caches boot_slab1 6 = \<lparr>obj_size = 2048, partial = Some 0\<rparr>"
  "PHYS_MEM_START boot_slab1 = 4096"
  "load_ptr (memory boot_slab1) 6144 = 0"
  by (simp_all add: boot_slab1_def boot_eq eval_defs slab_eval_defs mem_eval)

lemma boot_slab2_result: "kmalloc 2048 boot_slab1 = Some (6144, boot_slab2)"
  by (simp add: boot_slab2_def boot_slab1_page0 kmalloc_def upt_rec config_defs slab_eval_defs update_defs Let_def Suc_Suc_0)


lemma boot_two_result: "run [Kmalloc 1024, Kmalloc 1024] boot = Some ([4096, 5120], boot_two)"
  by (simp add: boot_two_def boot_eq eval_defs slab_eval_defs mem_eval)


lemma boot_full_facts:
  "buddy_free_area boot_full k = None" "partial (slab_caches boot_full c) = None"
  by (simp_all add: boot_full_def boot_eq eval_defs)

lemma boot_full_alloc: "fst (alloc_pages 0 boot_full) = None"
  by (simp add: alloc_pages_fails_iff boot_full_facts)


subsection \<open>No buddy pair after a free\<close>












subsection \<open>The slab operations on concrete states\<close>


lemma boot_sizes:
  "obj_size (slab_caches boot 6) = 2048" "partial (slab_caches boot 6) = None"
  "PHYS_MEM_START boot + MEM_SIZE \<le> 2 ^ 64" "page_address 0 boot = 4096"
  "(0::nat) < MEM_SIZE div PAGE_SIZE" "PAGE_SIZE div 2048 = 2" "(2048::nat) \<le> PAGE_SIZE"
  by (simp_all add: boot_eq config_defs page_address_def)


lemma zero_bytes_load: "\<forall>j. j < 8 \<longrightarrow> m (a + j) = 0 \<Longrightarrow> load_ptr m a = 0"
  unfolding load_ptr_def by (simp add: sum_list_eq_0_iff)

theorem kmem_cache_alloc_serves_witness:
  "kmem_cache_alloc 6 boot_full = Some (0, boot_full)
   \<and> (\<exists>s'. kmem_cache_alloc 6 boot = Some (4096, s')
         \<and> freelist (MEM_MAP s' 0) = 6144 \<and> active_objects (MEM_MAP s' 0) = 1
         \<and> partial (slab_caches s' 6) = Some 0 \<and> load_ptr (memory s') 4096 = 0)
   \<and> (\<exists>s'. kmem_cache_alloc 6 boot_slab1 = Some (6144, s')
         \<and> freelist (MEM_MAP s' 0) = 0 \<and> active_objects (MEM_MAP s' 0) = 2
         \<and> partial (slab_caches s' 6) = None \<and> load_ptr (memory s') 6144 = 0)"
proof (intro conjI)
  have "partial (slab_caches boot_full 6) = None \<and> fst (alloc_pages 0 boot_full) = None"
    by (simp add: boot_full_alloc boot_full_facts)
  then show "kmem_cache_alloc 6 boot_full = Some (0, boot_full)"
    by (rule kmem_cache_alloc_serves [of boot_full 6, THEN conjunct1, THEN mp])
next
  have hb: "(partial (slab_caches boot 6) = None \<longrightarrow> cache_grow 6 boot = Some (True, boot_grown))
        \<and> (partial (slab_caches boot 6) \<noteq> None \<longrightarrow> boot_grown = boot)
        \<and> partial (slab_caches boot_grown 6) = Some 0 \<and> freelist (MEM_MAP boot_grown 0) = 4096
        \<and> (4096::nat) \<noteq> 0"
    by (simp add: boot_grown_result boot_grown_facts boot_sizes)
  from kmem_cache_alloc_serves [of boot 6 boot_grown 0 4096, THEN conjunct2, THEN mp, OF hb]
  show "\<exists>s'. kmem_cache_alloc 6 boot = Some (4096, s')
         \<and> freelist (MEM_MAP s' 0) = 6144 \<and> active_objects (MEM_MAP s' 0) = 1
         \<and> partial (slab_caches s' 6) = Some 0 \<and> load_ptr (memory s') 4096 = 0"
    apply (elim exE conjE)
    subgoal for s'
      apply (rule exI [of _ s'])
      apply (simp add: boot_grown_facts zero_bytes_load)
      done
    done
next
  have hc: "(partial (slab_caches boot_slab1 6) = None \<longrightarrow> cache_grow 6 boot_slab1 = Some (True, boot_slab1))
        \<and> (partial (slab_caches boot_slab1 6) \<noteq> None \<longrightarrow> boot_slab1 = boot_slab1)
        \<and> partial (slab_caches boot_slab1 6) = Some 0 \<and> freelist (MEM_MAP boot_slab1 0) = 6144
        \<and> (6144::nat) \<noteq> 0"
    by (simp add: boot_slab1_page0)
  from kmem_cache_alloc_serves [of boot_slab1 6 boot_slab1 0 6144, THEN conjunct2, THEN mp, OF hc]
  show "\<exists>s'. kmem_cache_alloc 6 boot_slab1 = Some (6144, s')
         \<and> freelist (MEM_MAP s' 0) = 0 \<and> active_objects (MEM_MAP s' 0) = 2
         \<and> partial (slab_caches s' 6) = None \<and> load_ptr (memory s') 6144 = 0"
    apply (elim exE conjE)
    subgoal for s'
      apply (rule exI [of _ s'])
      apply (simp add: boot_slab1_page0 zero_bytes_load)
      done
    done
qed



end
